theory Spec2Isabelle
  imports Complex_Main "HOL-Library.Sublist"
begin

section \<open>Python values shared by the models\<close>

text \<open>
  The service is written in Python. A Python \<open>str\<close> is modelled as a \<open>string\<close>, one
  \<open>char\<close> per character of the text; a Python \<open>float\<close> is modelled as a \<open>real\<close>
  (the properties below use only comparisons, \<open>min\<close> and sums of non-negative
  terms); a \<open>dict\<close> is a map from its string keys, or the list of its items where
  dicts are compared; \<open>None\<close> as the value of an optional attribute is \<open>None\<close> of an
  \<open>option\<close>.
\<close>

datatype py_error =
  IndexError | ValueError | AttributeError | TypeError | OverflowError | LLMCallError

text \<open>Values decoded from JSON, as \<open>json.loads\<close> produces them.\<close>

datatype jvalue =
    JNull
  | JBool bool
  | JNum real
  | JStr string
  | JList "jvalue list"
  | JDict "(string \<times> jvalue) list"

text \<open>Python truthiness of a decoded JSON value.\<close>

fun truthy :: "jvalue \<Rightarrow> bool" where
  "truthy JNull = False"
| "truthy (JBool b) = b"
| "truthy (JNum x) = (x \<noteq> 0)"
| "truthy (JStr s) = (s \<noteq> [])"
| "truthy (JList xs) = (xs \<noteq> [])"
| "truthy (JDict kvs) = (kvs \<noteq> [])"

text \<open>
  Python's \<open>==\<close> on decoded values: \<open>True\<close> equals \<open>1\<close>, lists are equal item by item,
  and dicts are equal when they hold the same keys with equal values, in any order.
  A \<open>JDict\<close> lists the items of the dict, each key once.
\<close>

fun py_eq :: "jvalue \<Rightarrow> jvalue \<Rightarrow> bool" where
  "py_eq JNull JNull = True"
| "py_eq (JBool a) (JBool b) = (a = b)"
| "py_eq (JBool a) (JNum y) = ((if a then 1 else 0) = y)"
| "py_eq (JNum x) (JBool b) = (x = (if b then 1 else 0))"
| "py_eq (JNum x) (JNum y) = (x = y)"
| "py_eq (JStr s) (JStr t) = (s = t)"
| "py_eq (JList xs) (JList ys) = list_all2 py_eq xs ys"
| "py_eq (JDict a) (JDict b) =
     (list_all (\<lambda>(k, x). list_ex (\<lambda>(k', y). k' = k \<and> py_eq x y) b) a \<and>
      list_all (\<lambda>(k', y). list_ex (\<lambda>(k, x). k' = k \<and> py_eq x y) a) b)"
| "py_eq _ _ = False"

text \<open>\<open>d.get(k)\<close>: the value under \<open>k\<close>, or \<open>None\<close>, read for its truthiness.\<close>

definition get_truthy :: "(string \<rightharpoonup> jvalue) \<Rightarrow> string \<Rightarrow> bool" where
  "get_truthy d k = (case d k of None \<Rightarrow> False | Some v \<Rightarrow> truthy v)"

text \<open>\<open>d.get(k, default)\<close>.\<close>

definition dict_get :: "('k \<rightharpoonup> 'v) \<Rightarrow> 'k \<Rightarrow> 'v \<Rightarrow> 'v" where
  "dict_get d k dflt = (case d k of None \<Rightarrow> dflt | Some v \<Rightarrow> v)"

section \<open>The agent pipeline of \<open>agents/\<close>\<close>

subsection \<open>Data\<close>

text \<open>
  A search result of \<open>services/vector_store.py\<close>: a dict with the keys \<open>id\<close>, \<open>text\<close>,
  \<open>metadata\<close>, \<open>distance\<close> and \<open>score\<close>. The agents read every key with \<open>.get\<close>, so
  a key may be absent.
\<close>

record search_result =
  r_id :: "string option"
  r_text :: "string option"
  r_metadata :: "(string \<rightharpoonup> jvalue) option"
  r_score :: "real option"

record source =
  s_title :: string
  s_page :: "jvalue option"
  s_chunk_id :: string
  s_confidence :: real
  s_excerpt :: string

text \<open>The dataclass \<open>AgentContext\<close> of \<open>agents/base.py\<close>, with its defaults.\<close>

record agent_context =
  question :: string
  course_id :: string
  retrieved_chunks :: "search_result list option"
  structured_answer :: "(string \<rightharpoonup> jvalue) option"
  sources :: "source list option"
  misconceptions :: "string list option"
  curriculum_alignment :: real
  related_concepts :: "string list option"
  confidence :: real

definition new_context :: "string \<Rightarrow> string \<Rightarrow> agent_context" where
  "new_context q c =
     \<lparr> question = q, course_id = c, retrieved_chunks = None, structured_answer = None,
       sources = None, misconceptions = None, curriculum_alignment = 0,
       related_concepts = None, confidence = 0 \<rparr>"

subsection \<open>\<open>RetrievalAgent.process\<close>: the score threshold and its fallback\<close>

definition min_score :: real where
  "min_score = 0.5"

text \<open>\<open>[r for r in results if r.get("score", 0) >= self.min_score]\<close>\<close>

definition filter_by_score :: "search_result list \<Rightarrow> search_result list" where
  "filter_by_score results = filter (\<lambda>r. dict_get r_score r 0 \<ge> min_score) results"

text \<open>
  The part of \<open>process\<close> after the vector-store search, whose answer is the argument
  \<open>results\<close>: the filter, the fallback to \<open>results[:3]\<close>, and the store into the context.
  The topic labels come from \<open>_extract_concepts\<close>, which lists a Python set in no
  fixed order; it is the parameter \<open>extract_concepts\<close>.
\<close>

definition select_results :: "search_result list \<Rightarrow> search_result list" where
  "select_results results =
     (let filtered_results = filter_by_score results
      in if filtered_results = [] \<and> results \<noteq> [] then take 3 results
         else filtered_results)"

definition retrieval_process ::
  "(search_result list \<Rightarrow> string list) \<Rightarrow> search_result list \<Rightarrow> agent_context \<Rightarrow> agent_context"
  where
  "retrieval_process extract_concepts results context =
     (let filtered_results = select_results results
      in context\<lparr> retrieved_chunks := Some filtered_results,
           curriculum_alignment :=
             (if filtered_results \<noteq> []
              then min (sum_list (map (\<lambda>r. dict_get r_score r 0) filtered_results)
                          / real (length filtered_results)) 1
              else 0),
           related_concepts := Some (extract_concepts filtered_results) \<rparr>)"

subsection \<open>\<open>PedagogyAgent._calculate_confidence\<close>\<close>

definition calculate_confidence ::
  "(string \<rightharpoonup> jvalue) \<Rightarrow> search_result list option \<Rightarrow> real" where
  "calculate_confidence answer chunks =
     (let confidence = 0.5;
          confidence = (case chunks of
                          None \<Rightarrow> confidence
                        | Some cs \<Rightarrow>
                            if cs \<noteq> [] then confidence + 0.2 * min (real (length cs) / 5) 1
                            else confidence);
          confidence = (if get_truthy answer ''definition'' then confidence + 0.1 else confidence);
          confidence = (if get_truthy answer ''explanation'' then confidence + 0.1 else confidence);
          confidence = (if get_truthy answer ''example'' then confidence + 0.05 else confidence);
          confidence = (if get_truthy answer ''pitfalls'' then confidence + 0.05 else confidence)
      in min confidence 1)"

subsection \<open>\<open>AgentOrchestrator._format_response\<close>\<close>

record response =
  a_definition :: jvalue
  a_explanation :: jvalue
  a_example :: jvalue
  a_pitfalls :: jvalue
  resp_sources :: "source list"
  resp_curriculum_alignment :: real
  resp_misconception_warning :: "string option"
  resp_related_concepts :: "string list"
  resp_confidence :: real
  resp_has_course_material :: bool

text \<open>\<open>not context.retrieved_chunks or len(context.retrieved_chunks) == 0\<close>\<close>

definition no_chunks :: "agent_context \<Rightarrow> bool" where
  "no_chunks context =
     (case retrieved_chunks context of None \<Rightarrow> True | Some cs \<Rightarrow> cs = [] \<or> length cs = 0)"

definition format_response :: "agent_context \<Rightarrow> response" where
  "format_response context =
     (let answer = (case structured_answer context of
                      None \<Rightarrow> Map.empty
                    | Some a \<Rightarrow> if a = Map.empty then Map.empty else a);
          srcs = (if \<not> no_chunks context
                  then (case sources context of None \<Rightarrow> [] | Some s \<Rightarrow> s)
                  else []);
          conf = (if no_chunks context then min (confidence context * 0.8) 0.85
                  else confidence context)
      in \<lparr> a_definition = dict_get answer ''definition'' (JStr ''''),
           a_explanation = dict_get answer ''explanation'' (JStr ''''),
           a_example = dict_get answer ''example'' (JStr ''''),
           a_pitfalls = dict_get answer ''pitfalls'' (JList []),
           resp_sources = srcs,
           resp_curriculum_alignment = curriculum_alignment context,
           resp_misconception_warning =
             (case misconceptions context of
                None \<Rightarrow> None
              | Some [] \<Rightarrow> None
              | Some (m # ms) \<Rightarrow> Some m),
           resp_related_concepts =
             (case related_concepts context of None \<Rightarrow> [] | Some c \<Rightarrow> c),
           resp_confidence = conf,
           resp_has_course_material =
             (case retrieved_chunks context of
                None \<Rightarrow> False
              | Some cs \<Rightarrow> if cs \<noteq> [] then length cs > 0 else False) \<rparr>)"

text \<open>A search result that carries only a score, for the examples.\<close>

definition scored :: "real \<Rightarrow> search_result" where
  "scored x = \<lparr> r_id = None, r_text = None, r_metadata = None, r_score = Some x \<rparr>"

subsection \<open>\<open>VerificationAgent._create_excerpt\<close>\<close>

text \<open>The slice \<open>s[:n]\<close>; a negative \<open>n\<close> counts from the end.\<close>

definition py_slice_to :: "'a list \<Rightarrow> int \<Rightarrow> 'a list" where
  "py_slice_to s n = (if n \<ge> 0 then take (nat n) s else take (nat (int (length s) + n)) s)"

text \<open>\<open>s.rfind(c)\<close> for a one-character \<open>c\<close>: the highest index of \<open>c\<close> in \<open>s\<close>, or \<open>-1\<close>.\<close>

fun rfind :: "'a list \<Rightarrow> 'a \<Rightarrow> int" where
  "rfind [] c = -1"
| "rfind (x # xs) c =
     (let r = rfind xs c in if r \<ge> 0 then r + 1 else if x = c then 0 else -1)"

text \<open>
  \<open>s.rsplit(c, 1)[0]\<close> for a one-character \<open>c\<close>: the text before the last \<open>c\<close>, or all
  of \<open>s\<close> when \<open>c\<close> does not occur.
\<close>

definition rsplit_first :: "'a list \<Rightarrow> 'a \<Rightarrow> 'a list" where
  "rsplit_first s c = (let i = rfind s c in if i < 0 then s else take (nat i) s)"

definition create_excerpt :: "string \<Rightarrow> int \<Rightarrow> string" where
  "create_excerpt text max_length =
     (if int (length text) \<le> max_length then text
      else let truncated = py_slice_to text max_length;
               last_period = rfind truncated (CHR ''.'')
           in if last_period > max_length div 2 then py_slice_to truncated (last_period + 1)
              else rsplit_first truncated (CHR '' '') @ ''...'')"

text \<open>Example texts: an early period; a period at index 80 of 200; one space at index 100.\<close>

definition excerpt_early_period :: string where
  "excerpt_early_period = ''Hi. '' @ replicate 196 (CHR ''a'')"

definition excerpt_sentence :: string where
  "excerpt_sentence = replicate 80 (CHR ''a'') @ ''.'' @ replicate 119 (CHR ''b'')"

definition excerpt_words :: string where
  "excerpt_words = replicate 100 (CHR ''a'') @ '' '' @ replicate 99 (CHR ''b'')"

section \<open>The cache of \<open>src/services/cache_service.py\<close>\<close>

text \<open>
  The three SQLite tables, each a map from its primary key to the row. A timestamp is
  an integer count of microseconds, a \<open>timedelta\<close> an integer number of microseconds,
  and \<open>now\<close> is the clock reading (\<open>datetime.utcnow()\<close>) of the call. A \<open>NULL\<close> column
  is \<open>None\<close>. The hash \<open>hashlib.sha256(...).hexdigest()\<close> is the parameter \<open>sha\<close>, and
  \<open>json.dumps\<close> and \<open>json.loads\<close> are the parameters \<open>dumps\<close> and \<open>loads\<close>.
\<close>

record query_row =
  q_response :: string
  q_course_id :: "string option"
  q_created_at :: int
  q_expires_at :: "int option"
  q_hit_count :: int

record embedding_row =
  e_embedding :: string
  e_model :: "string option"
  e_created_at :: int

record graph_row =
  g_graph_data :: string
  g_created_at :: int
  g_updated_at :: "int option"

record cache_db =
  query_cache :: "string \<rightharpoonup> query_row"
  embedding_cache :: "string \<rightharpoonup> embedding_row"
  concept_graph_cache :: "string \<rightharpoonup> graph_row"

definition empty_db :: cache_db where
  "empty_db = \<lparr> query_cache = Map.empty, embedding_cache = Map.empty,
                concept_graph_cache = Map.empty \<rparr>"

text \<open>\<open>timedelta(hours=24)\<close> in microseconds.\<close>

definition default_ttl :: int where
  "default_ttl = 24 * 3600 * 1000000"

text \<open>\<open>f"{query}:{course_id or 'all'}"\<close>, hashed, first 32 hexadecimal digits.\<close>

definition generate_cache_key :: "(string \<Rightarrow> string) \<Rightarrow> string \<Rightarrow> string option \<Rightarrow> string" where
  "generate_cache_key sha query course =
     (let key_string = query @ '':'' @
            (case course of None \<Rightarrow> ''all'' | Some c \<Rightarrow> if c = [] then ''all'' else c)
      in take 32 (sha key_string))"

text \<open>
  \<open>get_cached_response\<close>: the row is selected only when \<open>expires_at IS NULL OR
  expires_at > now\<close>; a selected row has its hit count raised. The result is the
  decoded response, or \<open>None\<close>, and the database after the call.
\<close>

definition get_cached_response ::
  "(string \<Rightarrow> string) \<Rightarrow> (string \<Rightarrow> 'v) \<Rightarrow> cache_db \<Rightarrow> string \<Rightarrow> string option \<Rightarrow> int
     \<Rightarrow> 'v option \<times> cache_db" where
  "get_cached_response sha loads db query course now =
     (let cache_key = generate_cache_key sha query course
      in case query_cache db cache_key of
           None \<Rightarrow> (None, db)
         | Some row \<Rightarrow>
             if (case q_expires_at row of None \<Rightarrow> True | Some e \<Rightarrow> e > now)
             then (Some (loads (q_response row)),
                   db\<lparr> query_cache := (query_cache db)
                         (cache_key \<mapsto> row\<lparr> q_hit_count := q_hit_count row + 1 \<rparr>) \<rparr>)
             else (None, db))"

text \<open>
  A \<open>datetime\<close> counts the microseconds since \<open>datetime.min\<close>, the start of year 1; the
  last one, \<open>datetime.max\<close>, is the last microsecond of year 9999. Adding a \<open>timedelta\<close>
  that leaves this range raises \<open>OverflowError\<close>.
\<close>

definition datetime_max :: int where
  "datetime_max = 3652059 * 86400 * 1000000 - 1"

definition datetime_add :: "int \<Rightarrow> int \<Rightarrow> py_error + int" where
  "datetime_add d delta =
     (if d + delta < 0 \<or> datetime_max < d + delta then Inl OverflowError else Inr (d + delta))"

text \<open>
  \<open>cache_response\<close>: \<open>ttl or self.default_ttl\<close> (a zero \<open>timedelta\<close> is falsy), then
  \<open>expires_at = datetime.utcnow() + ttl\<close>, which may raise before anything is written,
  then \<open>INSERT OR REPLACE\<close> of the whole row; the columns not named take their
  defaults.
\<close>

definition cache_response ::
  "(string \<Rightarrow> string) \<Rightarrow> ('v \<Rightarrow> string) \<Rightarrow> cache_db \<Rightarrow> string \<Rightarrow> 'v \<Rightarrow> string option
     \<Rightarrow> int option \<Rightarrow> int \<Rightarrow> py_error + cache_db" where
  "cache_response sha dumps db query resp course ttl now =
     (let cache_key = generate_cache_key sha query course;
          ttl = (case ttl of None \<Rightarrow> default_ttl | Some t \<Rightarrow> if t = 0 then default_ttl else t)
      in case datetime_add now ttl of
           Inl e \<Rightarrow> Inl e
         | Inr expires_at \<Rightarrow>
             Inr (db\<lparr> query_cache := (query_cache db)
                    (cache_key \<mapsto> \<lparr> q_response = dumps resp, q_course_id = course,
                                     q_created_at = now, q_expires_at = Some expires_at,
                                     q_hit_count = 0 \<rparr>) \<rparr>))"

definition cache_embedding ::
  "(string \<Rightarrow> string) \<Rightarrow> ('e \<Rightarrow> string) \<Rightarrow> cache_db \<Rightarrow> string \<Rightarrow> 'e \<Rightarrow> string \<Rightarrow> int \<Rightarrow> cache_db"
  where
  "cache_embedding sha dumps db text embedding model now =
     db\<lparr> embedding_cache := (embedding_cache db)
          (sha text \<mapsto> \<lparr> e_embedding = dumps embedding, e_model = Some model,
                          e_created_at = now \<rparr>) \<rparr>"

definition get_cached_embedding ::
  "(string \<Rightarrow> string) \<Rightarrow> (string \<Rightarrow> 'e) \<Rightarrow> cache_db \<Rightarrow> string \<Rightarrow> 'e option" where
  "get_cached_embedding sha loads db text =
     (case embedding_cache db (sha text) of
        None \<Rightarrow> None
      | Some row \<Rightarrow> Some (loads (e_embedding row)))"

definition cache_concept_graph ::
  "('g \<Rightarrow> string) \<Rightarrow> cache_db \<Rightarrow> string \<Rightarrow> 'g \<Rightarrow> int \<Rightarrow> cache_db" where
  "cache_concept_graph dumps db course graph_data now =
     db\<lparr> concept_graph_cache := (concept_graph_cache db)
          (course \<mapsto> \<lparr> g_graph_data = dumps graph_data, g_created_at = now,
                          g_updated_at = Some now \<rparr>) \<rparr>"

definition get_cached_concept_graph ::
  "(string \<Rightarrow> 'g) \<Rightarrow> cache_db \<Rightarrow> string \<Rightarrow> 'g option" where
  "get_cached_concept_graph loads db course =
     (case concept_graph_cache db course of
        None \<Rightarrow> None
      | Some row \<Rightarrow> Some (loads (g_graph_data row)))"

text \<open>\<open>DELETE FROM query_cache WHERE expires_at < now\<close>; a \<open>NULL\<close> never compares true.\<close>

definition clear_expired :: "cache_db \<Rightarrow> int \<Rightarrow> cache_db" where
  "clear_expired db now =
     db\<lparr> query_cache := (\<lambda>k. case query_cache db k of
                               None \<Rightarrow> None
                             | Some row \<Rightarrow>
                                 (case q_expires_at row of
                                    None \<Rightarrow> Some row
                                  | Some e \<Rightarrow> if e < now then None else Some row)) \<rparr>"

text \<open>
  \<open>clear_course_cache\<close>: \<open>DELETE FROM query_cache WHERE course_id = ?\<close>, then
  \<open>DELETE FROM concept_graph_cache WHERE course_id = ?\<close>, the primary key of that table.
\<close>

definition clear_course_cache :: "cache_db \<Rightarrow> string \<Rightarrow> cache_db" where
  "clear_course_cache db course =
     db\<lparr> query_cache := (\<lambda>k. case query_cache db k of
                               None \<Rightarrow> None
                             | Some row \<Rightarrow>
                                 if q_course_id row = Some course then None else Some row),
         concept_graph_cache := (\<lambda>k. if k = course then None else concept_graph_cache db k) \<rparr>"

text \<open>
  An example database: two cached answers of course \<open>c1\<close> and \<open>c2\<close>, one graph for
  each, and one embedding, all written at the clock reading \<open>example_now\<close>, a moment
  of the year 2026. The example hash and JSON codec are the identity.
\<close>

definition example_now :: int where
  "example_now = 63900000000000000"

definition example_db :: cache_db where
  "example_db =
     cache_embedding id id
       (cache_concept_graph id
         (cache_concept_graph id
           (projr (cache_response id id
             (projr (cache_response id id empty_db ''q1'' ''a1'' (Some ''c1'') None example_now))
             ''q2'' ''a2'' (Some ''c2'') None example_now))
           ''c1'' ''g1'' example_now)
         ''c2'' ''g2'' example_now)
       ''some text'' ''[0.5]'' ''text-embedding-ada-002'' example_now"

section \<open>The retrieval agent of \<open>src/agents/retrieval_agent.py\<close>\<close>

subsection \<open>Chunks and their identifiers\<close>

text \<open>
  A chunk is a dict (\<open>chunk_id\<close>, \<open>content\<close>, \<open>metadata\<close>, \<open>similarity\<close> when it comes from
  the vector store), modelled as the list of its items, each key once; \<open>map_of\<close> looks
  a key up. \<open>_deduplicate_chunks\<close> puts the identifier of a chunk into a Python set: a
  list or a dict there raises \<open>TypeError\<close> (unhashable), and \<open>True\<close> and \<open>1\<close> are the same
  member.
\<close>

type_synonym chunk = "(string \<times> jvalue) list"

fun hashable :: "jvalue \<Rightarrow> bool" where
  "hashable (JList xs) = False"
| "hashable (JDict kvs) = False"
| "hashable v = True"

text \<open>The representative of a hashable value among the values equal to it under \<open>==\<close>.\<close>

fun hash_norm :: "jvalue \<Rightarrow> jvalue" where
  "hash_norm (JBool b) = JNum (if b then 1 else 0)"
| "hash_norm v = v"

text \<open>\<open>chunk.get("chunk_id", chunk.get("id", ""))\<close>\<close>

definition chunk_key :: "chunk \<Rightarrow> jvalue" where
  "chunk_key chunk =
     dict_get (map_of chunk) ''chunk_id'' (dict_get (map_of chunk) ''id'' (JStr ''''))"

fun dedup_loop :: "chunk list \<Rightarrow> jvalue set \<Rightarrow> chunk list \<Rightarrow> py_error + chunk list" where
  "dedup_loop [] seen unique = Inr unique"
| "dedup_loop (chunk # rest) seen unique =
     (let chunk_id = chunk_key chunk
      in if \<not> hashable chunk_id then Inl TypeError
         else if hash_norm chunk_id \<notin> seen
              then dedup_loop rest (insert (hash_norm chunk_id) seen) (unique @ [chunk])
              else dedup_loop rest seen unique)"

definition deduplicate_chunks :: "chunk list \<Rightarrow> py_error + chunk list" where
  "deduplicate_chunks chunks = dedup_loop chunks {} []"

text \<open>A chunk with neither a \<open>chunk_id\<close> nor an \<open>id\<close> key.\<close>

definition idless :: "chunk \<Rightarrow> bool" where
  "idless chunk = (map_of chunk ''chunk_id'' = None \<and> map_of chunk ''id'' = None)"

text \<open>Example chunks: with an identifier, and with content only.\<close>

definition chunk_with_id :: "string \<Rightarrow> chunk" where
  "chunk_with_id i = [(''chunk_id'', JStr i)]"

definition chunk_with_content :: "string \<Rightarrow> chunk" where
  "chunk_with_content t = [(''content'', JStr t)]"

text \<open>
  What the deduplicated list holds of the chunks without identifier, in the words of
  the property: the first of them, unless a chunk before it has the key \<open>""\<close> already.
\<close>

definition first_idless :: "chunk list \<Rightarrow> chunk list" where
  "first_idless chunks =
     (if \<exists>c \<in> set (takeWhile (\<lambda>c. \<not> idless c) chunks). chunk_key c = JStr '''' then []
      else take 1 (filter idless chunks))"

subsection \<open>Python string operations of the reranking and the chunker\<close>

text \<open>
  The characters \<open>str.strip()\<close> removes and \<open>int()\<close> skips: tab to carriage return,
  the four separators \<open>0x1C\<close> to \<open>0x1F\<close>, space, next line and no-break space.
\<close>

definition is_space :: "char \<Rightarrow> bool" where
  "is_space c \<longleftrightarrow>
     c \<in> set [CHR 0x09, CHR 0x0A, CHR 0x0B, CHR 0x0C, CHR 0x0D, CHR 0x1C, CHR 0x1D, CHR 0x1E,
               CHR 0x1F, CHR 0x20, CHR 0x85, CHR 0xA0]"

text \<open>\<open>s.strip()\<close>\<close>

definition py_strip :: "string \<Rightarrow> string" where
  "py_strip s = rev (dropWhile is_space (rev (dropWhile is_space s)))"

text \<open>
  \<open>s.split(sep)\<close> for a non-empty \<open>sep\<close>: the fields between the occurrences of \<open>sep\<close>,
  found from the left without overlap. \<open>field\<close> is the field being read.
\<close>

function py_split_from :: "string \<Rightarrow> string \<Rightarrow> string \<Rightarrow> string list" where
  "py_split_from sep field [] = [field]"
| "py_split_from sep field (c # cs) =
     (if sep \<noteq> [] \<and> prefix sep (c # cs)
      then field # py_split_from sep [] (drop (length sep) (c # cs))
      else py_split_from sep (field @ [c]) cs)"
  by pat_completeness auto
termination
  by (relation "measure (\<lambda>(sep, field, text). length text)") auto

definition py_split :: "string \<Rightarrow> string \<Rightarrow> string list" where
  "py_split sep text = py_split_from sep [] text"

text \<open>
  \<open>int(s)\<close> in base ten: white space around, one optional sign, then digits, where
  single underscores may stand between digits; anything else is a \<open>ValueError\<close>, and
  so is a numeral of more than 4300 digits (the default of
  \<open>sys.int_max_str_digits\<close>; sign and underscores do not count).
\<close>

definition is_digit :: "char \<Rightarrow> bool" where
  "is_digit c \<longleftrightarrow> c \<in> set ''0123456789''"

fun digits_ok :: "string \<Rightarrow> bool" where
  "digits_ok [] = False"
| "digits_ok [c] = is_digit c"
| "digits_ok (c # d # rest) =
     (is_digit c \<and> (if d = CHR ''_'' then digits_ok rest else digits_ok (d # rest)))"

definition digit_val :: "char \<Rightarrow> int" where
  "digit_val c = int (of_char c) - 48"

definition digits_value :: "string \<Rightarrow> int" where
  "digits_value body = foldl (\<lambda>acc c. 10 * acc + digit_val c) 0 (filter is_digit body)"

definition int_max_str_digits :: nat where
  "int_max_str_digits = 4300"

definition py_int :: "string \<Rightarrow> py_error + int" where
  "py_int s =
     (let t = py_strip s;
          neg = (t \<noteq> [] \<and> hd t = CHR ''-'');
          body = (if t \<noteq> [] \<and> (hd t = CHR ''-'' \<or> hd t = CHR ''+'') then tl t else t)
      in if digits_ok body \<and> length (filter is_digit body) \<le> int_max_str_digits
         then Inr (if neg then - digits_value body else digits_value body)
         else Inl ValueError)"

subsection \<open>\<open>RetrievalAgent._rerank_chunks\<close>\<close>

definition rerank_top_k :: nat where
  "rerank_top_k = 5"

text \<open>\<open>[int(x.strip()) for x in ...]\<close>: the first element that fails raises.\<close>

fun parse_ints :: "string list \<Rightarrow> py_error + int list" where
  "parse_ints [] = Inr []"
| "parse_ints (x # xs) =
     (case py_int (py_strip x) of
        Inl e \<Rightarrow> Inl e
      | Inr n \<Rightarrow> (case parse_ints xs of Inl e \<Rightarrow> Inl e | Inr ns \<Rightarrow> Inr (n # ns)))"

definition parse_ranking :: "string \<Rightarrow> py_error + int list" where
  "parse_ranking response = parse_ints (py_split '','' (py_strip response))"

text \<open>
  \<open>chunk.get('content', '')[:500]\<close> in the prompt, built before the \<open>try\<close>: the slice
  of a string or a list is fine, any other content raises (\<open>TypeError\<close>; for a dict
  \<open>KeyError\<close> from Python 3.12 on), and the exception leaves \<open>_rerank_chunks\<close>.
\<close>

fun sliceable :: "jvalue \<Rightarrow> bool" where
  "sliceable (JStr s) = True"
| "sliceable (JList xs) = True"
| "sliceable v = False"

definition content_sliceable :: "chunk \<Rightarrow> bool" where
  "content_sliceable chunk = sliceable (dict_get (map_of chunk) ''content'' (JStr ''''))"

text \<open>\<open>a == b\<close> for two chunks.\<close>

definition chunk_eq :: "chunk \<Rightarrow> chunk \<Rightarrow> bool" where
  "chunk_eq a b = py_eq (JDict a) (JDict b)"

text \<open>The loop \<open>for idx in ranking\<close>.\<close>

fun select_ranked :: "chunk list \<Rightarrow> int list \<Rightarrow> chunk list \<Rightarrow> chunk list" where
  "select_ranked chunks [] reranked = reranked"
| "select_ranked chunks (idx # rest) reranked =
     (if 0 \<le> idx \<and> idx < int (length chunks)
      then select_ranked chunks rest (reranked @ [chunks ! nat idx])
      else select_ranked chunks rest reranked)"

text \<open>
  The loop \<open>for chunk in chunks\<close> that adds the chunks not in the ranking;
  \<open>chunk not in reranked\<close> compares with \<open>==\<close>.
\<close>

fun add_missing :: "chunk list \<Rightarrow> chunk list \<Rightarrow> chunk list" where
  "add_missing [] reranked = reranked"
| "add_missing (chunk # rest) reranked =
     (if \<not> list_ex (\<lambda>r. chunk_eq r chunk) reranked then add_missing rest (reranked @ [chunk])
      else add_missing rest reranked)"

text \<open>
  \<open>_rerank_chunks\<close>. \<open>llm\<close> is the outcome of \<open>_call_llm\<close> on the prompt: an exception,
  or the message content, which may be \<open>None\<close>. Every exception inside the \<open>try\<close>
  returns the chunks as they came.
\<close>

definition rerank_chunks :: "py_error + string option \<Rightarrow> chunk list \<Rightarrow> py_error + chunk list"
  where
  "rerank_chunks llm chunks =
     (if chunks = [] then Inr []
      else if length chunks \<le> rerank_top_k then Inr chunks
      else if list_ex (\<lambda>chunk. \<not> content_sliceable chunk) chunks then Inl TypeError
      else case llm of
             Inl e \<Rightarrow> Inr chunks
           | Inr None \<Rightarrow> Inr chunks
           | Inr (Some response) \<Rightarrow>
               (case parse_ranking response of
                  Inl e \<Rightarrow> Inr chunks
                | Inr ranking \<Rightarrow> Inr (add_missing chunks (select_ranked chunks ranking []))))"

text \<open>Six chunks with different identifiers.\<close>

definition six_chunks :: "chunk list" where
  "six_chunks = map chunk_with_id [''c0'', ''c1'', ''c2'', ''c3'', ''c4'', ''c5'']"

section \<open>The chunker of \<open>src/services/document_processor.py\<close>\<close>

record document_processor =
  chunk_size :: int
  chunk_overlap :: int
  min_chunk_size :: int

text \<open>The defaults of \<open>DocumentProcessor.__init__\<close>.\<close>

definition default_processor :: document_processor where
  "default_processor = \<lparr> chunk_size = 1000, chunk_overlap = 200, min_chunk_size = 100 \<rparr>"

text \<open>\<open>["\n\n", "\n", ". ", " ", ""]\<close>\<close>

definition default_separators :: "string list" where
  "default_separators = [[CHR 0x0A, CHR 0x0A], [CHR 0x0A], ''. '', '' '', '''']"

text \<open>The slice \<open>s[i:]\<close>; a negative \<open>i\<close> counts from the end, and \<open>s[-0:]\<close> is \<open>s[0:]\<close>.\<close>

definition py_slice_from :: "'a list \<Rightarrow> int \<Rightarrow> 'a list" where
  "py_slice_from s i = (if i \<ge> 0 then drop (nat i) s else drop (nat (int (length s) + i)) s)"

text \<open>
  \<open>_recursive_split\<close> and its \<open>for split in splits\<close> loop. The loop carries the
  separator of its level, the separators left for the recursion, the splits still to
  read, the buffer \<open>current_chunk\<close> and the chunks appended so far. \<open>separators[0]\<close>
  of an empty list raises \<open>IndexError\<close>.
\<close>

function recursive_split ::
    "document_processor \<Rightarrow> string \<Rightarrow> string list option \<Rightarrow> py_error + string list"
  and split_loop ::
    "document_processor \<Rightarrow> string \<Rightarrow> string list \<Rightarrow> string list \<Rightarrow> string \<Rightarrow> string list
       \<Rightarrow> py_error + string list"
  where
  "recursive_split P text separators =
     (let separators = (case separators of None \<Rightarrow> default_separators | Some s \<Rightarrow> s)
      in case separators of
           [] \<Rightarrow> Inl IndexError
         | separator # rest \<Rightarrow>
             let new_separators = (if length separators > 1 then rest else []);
                 splits = (if separator \<noteq> [] then py_split separator text
                           else map (\<lambda>c. [c]) text)
             in split_loop P separator new_separators splits [] [])"
| "split_loop P separator new_separators [] current_chunk chunks =
     Inr (if int (length current_chunk) \<ge> min_chunk_size P
          then chunks @ [py_strip current_chunk] else chunks)"
| "split_loop P separator new_separators (split # splits) current_chunk chunks =
     (let piece = (if separator \<noteq> [] then split @ separator else split)
      in if int (length current_chunk) + int (length piece) > chunk_size P
         then
           let chunks = (if int (length current_chunk) \<ge> min_chunk_size P
                         then chunks @ [py_strip current_chunk] else chunks)
           in if int (length piece) > chunk_size P \<and> new_separators \<noteq> []
              then (case recursive_split P piece (Some new_separators) of
                      Inl e \<Rightarrow> Inl e
                    | Inr sub_chunks \<Rightarrow>
                        split_loop P separator new_separators splits [] (chunks @ sub_chunks))
              else
                let overlap = (if int (length current_chunk) > chunk_overlap P
                               then py_slice_from current_chunk (- chunk_overlap P)
                               else current_chunk)
                in split_loop P separator new_separators splits (overlap @ piece) chunks
         else split_loop P separator new_separators splits (current_chunk @ piece) chunks)"
  by pat_completeness auto
termination
  by (relation "measures
        [\<lambda>x. case x of
                Inl (P, text, separators) \<Rightarrow>
                  length (case separators of None \<Rightarrow> default_separators | Some s \<Rightarrow> s)
              | Inr (P, separator, new_separators, splits, current_chunk, chunks) \<Rightarrow>
                  length new_separators,
         \<lambda>x. case x of
                Inl (P, text, separators) \<Rightarrow> 0
              | Inr (P, separator, new_separators, splits, current_chunk, chunks) \<Rightarrow>
                  Suc (length splits)]")
     (auto split: if_splits dest!: arg_cong [where f = length])

text \<open>
  The number of separators a call has: for \<open>_recursive_split\<close> (\<open>Inl\<close>) the length of
  its separator list, for the loop (\<open>Inr\<close>) the length of \<open>new_separators\<close>.
\<close>

definition sep_level ::
  "document_processor \<times> string \<times> string list option +
   document_processor \<times> string \<times> string list \<times> string list \<times> string \<times> string list \<Rightarrow> nat"
  where
  "sep_level x =
     (case x of
        Inl (P, text, separators) \<Rightarrow>
          length (case separators of None \<Rightarrow> default_separators | Some s \<Rightarrow> s)
      | Inr (P, separator, new_separators, splits, current_chunk, chunks) \<Rightarrow>
          length new_separators)"

text \<open>A processor with small sizes, for the examples.\<close>

definition small_processor :: document_processor where
  "small_processor = \<lparr> chunk_size = 10, chunk_overlap = 5, min_chunk_size = 2 \<rparr>"


text \<open>
  The accumulated buffers. \<open>split_buffers\<close> and \<open>buffer_loop\<close> run the same recursion
  and the same loop as \<open>_recursive_split\<close>, and record the buffer \<open>current_chunk\<close> at
  each of the two places where the source tests
  \<open>len(current_chunk) >= self.min_chunk_size\<close>, whether the test passes or not,
  and unstripped. The buffers do not depend on \<open>min_chunk_size\<close>.
\<close>

function split_buffers ::
    "document_processor \<Rightarrow> string \<Rightarrow> string list option \<Rightarrow> py_error + string list"
  and buffer_loop ::
    "document_processor \<Rightarrow> string \<Rightarrow> string list \<Rightarrow> string list \<Rightarrow> string \<Rightarrow> string list
       \<Rightarrow> py_error + string list"
  where
  "split_buffers P text separators =
     (let separators = (case separators of None \<Rightarrow> default_separators | Some s \<Rightarrow> s)
      in case separators of
           [] \<Rightarrow> Inl IndexError
         | separator # rest \<Rightarrow>
             let new_separators = (if length separators > 1 then rest else []);
                 splits = (if separator \<noteq> [] then py_split separator text
                           else map (\<lambda>c. [c]) text)
             in buffer_loop P separator new_separators splits [] [])"
| "buffer_loop P separator new_separators [] current_chunk buffers =
     Inr (buffers @ [current_chunk])"
| "buffer_loop P separator new_separators (split # splits) current_chunk buffers =
     (let piece = (if separator \<noteq> [] then split @ separator else split)
      in if int (length current_chunk) + int (length piece) > chunk_size P
         then
           let buffers = buffers @ [current_chunk]
           in if int (length piece) > chunk_size P \<and> new_separators \<noteq> []
              then (case split_buffers P piece (Some new_separators) of
                      Inl e \<Rightarrow> Inl e
                    | Inr sub_buffers \<Rightarrow>
                        buffer_loop P separator new_separators splits [] (buffers @ sub_buffers))
              else
                let overlap = (if int (length current_chunk) > chunk_overlap P
                               then py_slice_from current_chunk (- chunk_overlap P)
                               else current_chunk)
                in buffer_loop P separator new_separators splits (overlap @ piece) buffers
         else buffer_loop P separator new_separators splits (current_chunk @ piece) buffers)"
  by pat_completeness auto
termination
  by (relation "measures
        [\<lambda>x. case x of
                Inl (P, text, separators) \<Rightarrow>
                  length (case separators of None \<Rightarrow> default_separators | Some s \<Rightarrow> s)
              | Inr (P, separator, new_separators, splits, current_chunk, buffers) \<Rightarrow>
                  length new_separators,
         \<lambda>x. case x of
                Inl (P, text, separators) \<Rightarrow> 0
              | Inr (P, separator, new_separators, splits, current_chunk, buffers) \<Rightarrow>
                  Suc (length splits)]")
     (auto split: if_splits dest!: arg_cong [where f = length])

text \<open>
  What the source keeps of a list of buffers: those that reach \<open>min_chunk_size\<close>,
  stripped.
\<close>

definition kept :: "document_processor \<Rightarrow> string list \<Rightarrow> string list" where
  "kept P buffers = map py_strip (filter (\<lambda>b. min_chunk_size P \<le> int (length b)) buffers)"

section \<open>Properties of the agent pipeline\<close>

text \<open>
  C5. Results scoring below \<open>min_score = 0.5\<close> are filtered out; when the filter removes
  every result of a non-empty list, the first three unfiltered results are kept
  instead of none. A missing score reads as \<open>0\<close>.
\<close>

theorem select_results_threshold:
  "retrieved_chunks (retrieval_process extract_concepts results context) = Some (select_results results) \<and>
   ((\<exists>r \<in> set results. dict_get r_score r 0 \<ge> 0.5) \<longrightarrow>
      select_results results = filter (\<lambda>r. \<not> dict_get r_score r 0 < 0.5) results) \<and>
   ((\<forall>r \<in> set results. dict_get r_score r 0 < 0.5) \<longrightarrow>
      select_results results = take 3 results) \<and>
   (results \<noteq> [] \<longrightarrow> select_results results \<noteq> [])"
proof -
  have f: "filter_by_score results = filter (\<lambda>r. \<not> dict_get r_score r 0 < 0.5) results"
    by (simp add: filter_by_score_def min_score_def not_less)
  have a: "(\<exists>r \<in> set results. dict_get r_score r 0 \<ge> 0.5) \<Longrightarrow> filter_by_score results \<noteq> []"
    unfolding f by (auto simp: filter_empty_conv not_less)
  have b: "(\<forall>r \<in> set results. dict_get r_score r 0 < 0.5) \<Longrightarrow> filter_by_score results = []"
    unfolding f by (simp add: filter_empty_conv)
  have c: "results \<noteq> [] \<Longrightarrow> select_results results \<noteq> []"
    by (cases results) (auto simp: select_results_def Let_def)
  show ?thesis
    using a b c f
    by (auto simp: select_results_def retrieval_process_def Let_def min_score_def)
qed

theorem select_results_threshold_witness:
  "select_results [scored 0.3, scored 0.2, scored 0.1] = [scored 0.3, scored 0.2, scored 0.1] \<and>
   select_results [scored 0.9, scored 0.2, scored 0.6] = [scored 0.9, scored 0.6]"
  using select_results_threshold [where results = "[scored 0.3, scored 0.2, scored 0.1]"]
    select_results_threshold [where results = "[scored 0.9, scored 0.2, scored 0.6]"]
  by (simp add: scored_def dict_get_def)

text \<open>
  C6. With no retrieved chunks (\<open>None\<close> or the empty list) the formatted response has
  \<open>has_course_material = False\<close>, and its confidence is the context's confidence times
  \<open>0.8\<close>, capped at \<open>0.85\<close>, which is below the maximum \<open>1\<close> of a course-backed
  answer.
\<close>

theorem format_response_no_material:
  assumes "retrieved_chunks context = None \<or> retrieved_chunks context = Some []"
  shows "resp_has_course_material (format_response context) = False \<and>
         resp_confidence (format_response context) = min (confidence context * 0.8) 0.85 \<and>
         resp_confidence (format_response context) \<le> 0.85 \<and>
         resp_sources (format_response context) = []"
proof -
  from assms have n: "no_chunks context"
    by (auto simp: no_chunks_def)
  from assms have h: "resp_has_course_material (format_response context) = False"
    by (auto simp: format_response_def Let_def)
  from n have c: "resp_confidence (format_response context) = min (confidence context * 0.8) 0.85"
    by (simp add: format_response_def Let_def)
  from n have s: "resp_sources (format_response context) = []"
    by (simp add: format_response_def Let_def)
  from c have "resp_confidence (format_response context) \<le> 0.85"
    by simp
  with h c s show ?thesis by simp
qed

theorem format_response_no_material_witness:
  "resp_has_course_material
     (format_response ((new_context ''q'' ''c'')\<lparr> retrieved_chunks := Some [], confidence := 0.8 \<rparr>)) = False \<and>
   resp_confidence
     (format_response ((new_context ''q'' ''c'')\<lparr> retrieved_chunks := Some [], confidence := 0.8 \<rparr>)) = 0.64 \<and>
   resp_confidence (format_response ((new_context ''q'' ''c'')\<lparr> confidence := 2 \<rparr>)) = 0.85"
  using format_response_no_material
      [of "(new_context ''q'' ''c'')\<lparr> retrieved_chunks := Some [], confidence := 0.8 \<rparr>"]
    format_response_no_material [of "(new_context ''q'' ''c'')\<lparr> confidence := 2 \<rparr>"]
  by (simp add: new_context_def)

text \<open>
  C9. The composer's confidence lies in \<open>[0.5, 1]\<close> for every answer dictionary and
  every chunk list: it starts at \<open>0.5\<close>, each term added is non-negative, and the sum
  is capped at \<open>1\<close>.
\<close>

theorem calculate_confidence_range:
  "0.5 \<le> calculate_confidence answer chunks \<and> calculate_confidence answer chunks \<le> 1"
proof -
  have "0 \<le> 0.2 * min (real n / 5) 1" for n :: nat
    by simp
  then show ?thesis
    unfolding calculate_confidence_def Let_def
    by (auto split: option.splits simp: min_def)
qed

section \<open>Properties of the excerpt\<close>

lemma rfind_absent: "c \<notin> set s \<Longrightarrow> rfind s c = -1"
  by (induction s) (auto simp: Let_def)

lemma rfind_last:
  "p < length s \<Longrightarrow> s ! p = c \<Longrightarrow> (\<forall>i. p < i \<and> i < length s \<longrightarrow> s ! i \<noteq> c) \<Longrightarrow>
   rfind s c = int p"
proof (induction s arbitrary: p)
  case Nil
  then show ?case by simp
next
  case (Cons x xs)
  show ?case
  proof (cases p)
    case 0
    have "c \<notin> set xs"
    proof
      assume "c \<in> set xs"
      then obtain j where "j < length xs" "xs ! j = c" by (auto simp: in_set_conv_nth)
      with Cons.prems(3) [rule_format, of "Suc j"] 0 show False by simp
    qed
    then have "rfind xs c = -1" by (rule rfind_absent)
    with 0 Cons.prems show ?thesis by (simp add: Let_def)
  next
    case (Suc q)
    have "rfind xs c = int q"
    proof (rule Cons.IH)
      show "q < length xs" using Cons.prems Suc by simp
      show "xs ! q = c" using Cons.prems Suc by simp
      show "\<forall>i. q < i \<and> i < length xs \<longrightarrow> xs ! i \<noteq> c"
        using Cons.prems(3) [rule_format, of "Suc i" for i] Suc by auto
    qed
    with Suc show ?thesis by (simp add: Let_def)
  qed
qed


lemma rfind_hit: "0 \<le> rfind s c \<Longrightarrow> nat (rfind s c) < length s \<and> s ! nat (rfind s c) = c"
proof (induction s)
  case Nil
  then show ?case by simp
next
  case (Cons x xs)
  show ?case
  proof (cases "0 \<le> rfind xs c")
    case True
    with Cons.IH have "nat (rfind xs c) < length xs \<and> xs ! nat (rfind xs c) = c" by simp
    with True show ?thesis by (simp add: Let_def nat_add_distrib)
  next
    case False
    with Cons.prems show ?thesis by (simp add: Let_def split: if_splits)
  qed
qed

lemma rfind_ge: "- 1 \<le> rfind s c"
  by (induction s) (auto simp: Let_def)

text \<open>
  C7, as stated: every text longer than 150 characters with a period among its first
  150 characters is cut after the last such period. The code cuts there only when that
  period lies beyond index \<open>max_length // 2 = 75\<close>. The text \<open>Hi. aaa...\<close> of 200
  characters has its last period at index 2, and its excerpt is \<open>Hi....\<close>, not the
  first three characters.
\<close>

theorem create_excerpt_early_period:
  "150 < length excerpt_early_period \<and>
   rfind (take 150 excerpt_early_period) (CHR ''.'') = 2 \<and>
   create_excerpt excerpt_early_period 150 = ''Hi....'' \<and>
   create_excerpt excerpt_early_period 150 \<noteq> take 3 excerpt_early_period"
  by code_simp

text \<open>
  C7, amended. For a text longer than 150 characters: when the last period among the
  first 150 characters is at an index \<open>p > 75\<close>, the excerpt is the first \<open>p + 1\<close>
  characters; when no period among the first 150 characters lies beyond index 75
  (in particular when there is none), the excerpt is the first 150 characters cut
  before their last space (uncut when they hold no space), followed by \<open>...\<close>. A text
  of 200 characters whose last period among the first 150 is at index 80 yields its first 81
  characters.
\<close>

theorem create_excerpt_cut:
  assumes long: "150 < length text"
  shows
   "(\<forall>p. 75 < p \<and> p < 150 \<and> text ! p = CHR ''.'' \<and>
         (\<forall>i. p < i \<and> i < 150 \<longrightarrow> text ! i \<noteq> CHR ''.'') \<longrightarrow>
         create_excerpt text 150 = take (p + 1) text) \<and>
    ((\<forall>i<150. text ! i = CHR ''.'' \<longrightarrow> i \<le> 75) \<longrightarrow>
       (\<forall>q. q < 150 \<and> text ! q = CHR '' '' \<and>
            (\<forall>i. q < i \<and> i < 150 \<longrightarrow> text ! i \<noteq> CHR '' '') \<longrightarrow>
            create_excerpt text 150 = take q text @ ''...'') \<and>
       ((\<forall>i<150. text ! i \<noteq> CHR '' '') \<longrightarrow>
            create_excerpt text 150 = take 150 text @ ''...'')) \<and>
    (length text = 200 \<and> text ! 80 = CHR ''.'' \<and>
       (\<forall>i. 80 < i \<and> i < 150 \<longrightarrow> text ! i \<noteq> CHR ''.'') \<longrightarrow>
       create_excerpt text 150 = take 81 text)"
proof -
  define t where "t = take 150 text"
  have len: "length t = 150" using long by (simp add: t_def)
  have nth: "t ! i = text ! i" if "i < 150" for i using that by (simp add: t_def)
  have unfold: "create_excerpt text 150 =
      (if rfind t (CHR ''.'') > 75 then take (nat (rfind t (CHR ''.'') + 1)) t
       else rsplit_first t (CHR '' '') @ ''...'')"
    using long rfind_ge [of t "CHR ''.''"]
    by (simp add: create_excerpt_def py_slice_to_def Let_def t_def)
  have period: "create_excerpt text 150 = take (p + 1) text"
    if "75 < p" "p < 150" "text ! p = CHR ''.''"
       "\<forall>i. p < i \<and> i < 150 \<longrightarrow> text ! i \<noteq> CHR ''.''" for p
  proof -
    have "rfind t (CHR ''.'') = int p"
      using that len nth by (intro rfind_last) auto
    with that show ?thesis
      by (simp add: unfold t_def nat_add_distrib min_def)
  qed
  have word: "create_excerpt text 150 = rsplit_first t (CHR '' '') @ ''...''"
    if "\<forall>i<150. text ! i = CHR ''.'' \<longrightarrow> i \<le> 75"
  proof -
    have "\<not> rfind t (CHR ''.'') > 75"
    proof
      assume gt: "rfind t (CHR ''.'') > 75"
      then have "nat (rfind t (CHR ''.'')) < length t \<and> t ! nat (rfind t (CHR ''.'')) = CHR ''.''"
        by (intro rfind_hit) simp
      with that len nth have "nat (rfind t (CHR ''.'')) \<le> 75" by auto
      with gt show False by simp
    qed
    then show ?thesis by (simp add: unfold)
  qed
  have space: "rsplit_first t (CHR '' '') = take q text"
    if "q < 150" "text ! q = CHR '' ''" "\<forall>i. q < i \<and> i < 150 \<longrightarrow> text ! i \<noteq> CHR '' ''" for q
  proof -
    have "rfind t (CHR '' '') = int q"
      using that len nth by (intro rfind_last) auto
    with that show ?thesis
      by (simp add: rsplit_first_def t_def min_def)
  qed
  have nospace: "rsplit_first t (CHR '' '') = take 150 text"
    if "\<forall>i<150. text ! i \<noteq> CHR '' ''"
  proof -
    have "CHR '' '' \<notin> set t"
      using that len nth by (auto simp: in_set_conv_nth)
    then have "rfind t (CHR '' '') = -1" by (rule rfind_absent)
    then show ?thesis by (simp add: rsplit_first_def t_def)
  qed
  show ?thesis
    using period [of 80] period word space nospace by auto
qed



lemma excerpt_sentence_facts: "150 < length excerpt_sentence" "length excerpt_sentence = 200"
    "excerpt_sentence ! 80 = CHR ''.''"
    by (simp_all add: excerpt_sentence_def nth_append)

lemma excerpt_sentence_tail: "80 < i \<Longrightarrow> i < 150 \<Longrightarrow> excerpt_sentence ! i \<noteq> CHR ''.''"
    by (simp add: excerpt_sentence_def nth_append nth_Cons')

lemma excerpt_words_facts: "150 < length excerpt_words" "excerpt_words ! 100 = CHR '' ''"
    by (simp_all add: excerpt_words_def nth_append)
lemma excerpt_words_tail: "100 < i \<Longrightarrow> i < 150 \<Longrightarrow> excerpt_words ! i \<noteq> CHR '' ''"
    by (simp add: excerpt_words_def nth_append nth_Cons')
lemma excerpt_words_periods: "i<150 \<Longrightarrow> excerpt_words ! i = CHR ''.'' \<longrightarrow> i \<le> 75"
    by (simp add: excerpt_words_def nth_append nth_Cons')

theorem create_excerpt_cut_witness:
  "length excerpt_sentence = 200 \<and>
   create_excerpt excerpt_sentence 150 = take 81 excerpt_sentence \<and>
   create_excerpt excerpt_words 150 = take 100 excerpt_words @ ''...''"
proof -
  have b: "\<forall>i. 80 < i \<and> i < 150 \<longrightarrow> excerpt_sentence ! i \<noteq> CHR ''.''"
    using excerpt_sentence_tail by blast
  have d: "\<forall>i. 100 < i \<and> i < 150 \<longrightarrow> excerpt_words ! i \<noteq> CHR '' ''"
    using excerpt_words_tail by blast
  have e: "\<forall>i<150. excerpt_words ! i = CHR ''.'' \<longrightarrow> i \<le> 75"
    using excerpt_words_periods by blast
  have 1: "create_excerpt excerpt_sentence 150 = take 81 excerpt_sentence"
    by (rule create_excerpt_cut [OF excerpt_sentence_facts(1), THEN conjunct2, THEN conjunct2, THEN mp])
       (intro conjI excerpt_sentence_facts b)
  have 2: "create_excerpt excerpt_words 150 = take 100 excerpt_words @ ''...''"
    by (rule mp [OF create_excerpt_cut [OF excerpt_words_facts(1), THEN conjunct2, THEN conjunct1] e,
                 THEN conjunct1, THEN spec, THEN mp])
       (intro conjI excerpt_words_facts d, simp)
  from excerpt_sentence_facts(2) 1 2 show ?thesis by (intro conjI)
qed

section \<open>Properties of the cache\<close>

text \<open>
  C3, as stated: for every \<open>ttl > 0\<close> a read before \<open>ttl\<close> has elapsed returns the value
  put. A \<open>ttl\<close> of 3000000 days, a valid \<open>timedelta\<close>, takes the expiry time past year
  9999: \<open>cache_response\<close> raises \<open>OverflowError\<close> and writes nothing, and a read one
  second later finds nothing.
\<close>

theorem cached_response_overflow:
  "0 < (3000000 * 86400 * 1000000 :: int) \<and>
   cache_response id id empty_db ''q'' ''answer'' (Some ''c'')
     (Some (3000000 * 86400 * 1000000)) example_now = Inl OverflowError \<and>
   example_now + 1000000 < example_now + 3000000 * 86400 * 1000000 \<and>
   get_cached_response id id empty_db ''q'' (Some ''c'') (example_now + 1000000)
     = (None :: string option, empty_db)"
  by (simp add: cache_response_def datetime_add_def datetime_max_def example_now_def
      get_cached_response_def empty_db_def Let_def)

text \<open>
  C3, amended. Let \<open>cache_response\<close> run at time \<open>t0\<close> with a positive \<open>ttl\<close>. When
  \<open>t0 + ttl\<close> is a \<open>datetime\<close> (not after year 9999), the row is written, and a read
  of the same query and course at time \<open>t1\<close> returns the cached response while
  \<open>t1 < t0 + ttl\<close>; at or after the expiry the read returns \<open>None\<close> and leaves the
  database as it was, just as a read of a key that has no row does: the expiry is
  part of the read's own selection, and no sweep is involved. When \<open>t0 + ttl\<close> is
  after year 9999, \<open>cache_response\<close> raises \<open>OverflowError\<close>.
\<close>

theorem cached_response_expiry:
  assumes "0 < ttl" and "loads (dumps v) = v" and "0 \<le> t0"
  shows "(t0 + ttl \<le> datetime_max \<longrightarrow>
            (\<exists>db1. cache_response sha dumps db query v course (Some ttl) t0 = Inr db1 \<and>
               (t1 < t0 + ttl \<longrightarrow>
                  fst (get_cached_response sha loads db1 query course t1) = Some v) \<and>
               (t0 + ttl \<le> t1 \<longrightarrow>
                  get_cached_response sha loads db1 query course t1 = (None, db1)))) \<and>
         (datetime_max < t0 + ttl \<longrightarrow>
            cache_response sha dumps db query v course (Some ttl) t0 = Inl OverflowError) \<and>
         (query_cache db' (generate_cache_key sha query course) = None \<longrightarrow>
            get_cached_response sha loads db' query course t1 = (None, db'))"
  using assms
  by (simp add: get_cached_response_def cache_response_def datetime_add_def Let_def)

theorem cached_response_expiry_witness:
  "(\<exists>db1. cache_response id id empty_db ''q'' ''answer'' (Some ''c'') (Some 60000000) example_now
            = Inr db1 \<and>
      fst (get_cached_response id id db1 ''q'' (Some ''c'') (example_now + 59999999))
        = Some ''answer'' \<and>
      get_cached_response id id db1 ''q'' (Some ''c'') (example_now + 60000000) = (None, db1)) \<and>
   get_cached_response id id empty_db ''q'' (Some ''c'') example_now
     = (None :: string option, empty_db)"
proof -
  have a: "(0::int) < 60000000" "id (id ''answer'') = ''answer''" "0 \<le> example_now"
    "example_now + 60000000 \<le> datetime_max"
    "query_cache empty_db (generate_cache_key id ''q'' (Some ''c'')) = None"
    by (simp_all add: example_now_def datetime_max_def empty_db_def)
  from cached_response_expiry [where ttl = 60000000 and loads = id and dumps = id and v = "''answer''"
      and ?t0.0 = example_now and sha = id and db = empty_db and query = "''q''"
      and course = "Some ''c''" and ?t1.0 = "example_now + 59999999" and db' = empty_db, OF a(1,2,3)] a(4)
  obtain db1 where 1:
    "cache_response id id empty_db ''q'' ''answer'' (Some ''c'') (Some 60000000) example_now = Inr db1"
    "fst (get_cached_response id id db1 ''q'' (Some ''c'') (example_now + 59999999)) = Some ''answer''"
    by auto
  from cached_response_expiry [where ttl = 60000000 and loads = id and dumps = id and v = "''answer''"
      and ?t0.0 = example_now and sha = id and db = empty_db and query = "''q''"
      and course = "Some ''c''" and ?t1.0 = "example_now + 60000000" and db' = empty_db, OF a(1,2,3)] a(4) 1(1)
  have 2: "get_cached_response id id db1 ''q'' (Some ''c'') (example_now + 60000000) = (None, db1)"
    by auto
  from cached_response_expiry [where ttl = 60000000 and loads = id and dumps = id and v = "''answer''"
      and ?t0.0 = example_now and sha = id and db = empty_db and query = "''q''"
      and course = "Some ''c''" and ?t1.0 = "example_now" and db' = empty_db, OF a(1,2,3)]
    a(5)
  have 3: "get_cached_response id id empty_db ''q'' (Some ''c'') example_now
     = (None :: string option, empty_db)"
    by blast
  from 1 2 3 show ?thesis by blast
qed

text \<open>
  C4. \<open>clear_course_cache\<close> removes from the query cache exactly the rows whose course
  is the given one, and from the concept-graph cache exactly the row of that course;
  every other row of both tables is unchanged, and the embedding cache is unchanged.
\<close>

theorem clear_course_cache_exact:
  "query_cache (clear_course_cache db course) k =
     (case query_cache db k of
        None \<Rightarrow> None
      | Some row \<Rightarrow> if q_course_id row = Some course then None else Some row) \<and>
   concept_graph_cache (clear_course_cache db course) c =
     (if c = course then None else concept_graph_cache db c) \<and>
   embedding_cache (clear_course_cache db course) = embedding_cache db"
  by (simp add: clear_course_cache_def)

text \<open>
  On the example database, clearing course \<open>c1\<close> removes its cached answer and its
  graph, and keeps the answer and the graph of course \<open>c2\<close> and the embedding.
\<close>

lemma clear_course_cache_example:
  "query_cache (clear_course_cache example_db ''c1'') (generate_cache_key id ''q1'' (Some ''c1'')) = None \<and>
   query_cache example_db (generate_cache_key id ''q1'' (Some ''c1'')) \<noteq> None \<and>
   query_cache (clear_course_cache example_db ''c1'') (generate_cache_key id ''q2'' (Some ''c2''))
     = query_cache example_db (generate_cache_key id ''q2'' (Some ''c2'')) \<and>
   query_cache example_db (generate_cache_key id ''q2'' (Some ''c2'')) \<noteq> None \<and>
   concept_graph_cache (clear_course_cache example_db ''c1'') ''c1'' = None \<and>
   concept_graph_cache (clear_course_cache example_db ''c1'') ''c2'' \<noteq> None \<and>
   embedding_cache (clear_course_cache example_db ''c1'') ''some text'' \<noteq> None"
  by (simp add: clear_course_cache_def example_db_def empty_db_def cache_embedding_def
      cache_concept_graph_def cache_response_def generate_cache_key_def Let_def
      datetime_add_def datetime_max_def default_ttl_def example_now_def)

section \<open>Properties of the retrieval agent\<close>

lemma hash_norm_str: "hash_norm v = JStr s \<longleftrightarrow> v = JStr s"
  by (cases v) auto

lemma idless_key: "idless c \<Longrightarrow> chunk_key c = JStr ''''"
  by (simp add: idless_def chunk_key_def dict_get_def)

lemma dedup_loop_idless:
  "dedup_loop chunks seen unique = Inr out \<Longrightarrow>
   \<exists>kept. out = unique @ kept \<and>
     filter idless kept = (if JStr '''' \<in> seen then [] else first_idless chunks)"
proof (induction chunks arbitrary: seen unique)
  case Nil
  then show ?case by (simp add: first_idless_def)
next
  case (Cons chunk rest)
  let ?k = "hash_norm (chunk_key chunk)"
  from Cons.prems have h: "hashable (chunk_key chunk)"
    by (auto simp: Let_def split: if_splits)
  show ?case
  proof (cases "?k \<in> seen")
    case True
    with Cons.prems h have "dedup_loop rest seen unique = Inr out"
      by (simp add: Let_def)
    from Cons.IH [OF this] obtain kept where k: "out = unique @ kept"
      "filter idless kept = (if JStr '''' \<in> seen then [] else first_idless rest)" by blast
    have "first_idless (chunk # rest) = first_idless rest" if "JStr '''' \<notin> seen"
    proof -
      from that True have "?k \<noteq> JStr ''''" by auto
      then have ne: "chunk_key chunk \<noteq> JStr ''''" by (simp add: hash_norm_str)
      then have "\<not> idless chunk" using idless_key by blast
      with ne show ?thesis by (simp add: first_idless_def)
    qed
    with k show ?thesis by auto
  next
    case False
    with Cons.prems h have "dedup_loop rest (insert ?k seen) (unique @ [chunk]) = Inr out"
      by (simp add: Let_def)
    from Cons.IH [OF this] obtain kept where k: "out = (unique @ [chunk]) @ kept"
      "filter idless kept = (if JStr '''' \<in> insert ?k seen then [] else first_idless rest)"
      by blast
    have "filter idless (chunk # kept) = first_idless (chunk # rest)" if "JStr '''' \<notin> seen"
    proof (cases "idless chunk")
      case True
      then have "chunk_key chunk = JStr ''''" by (rule idless_key)
      with k(2) True show ?thesis by (simp add: first_idless_def)
    next
      case nid: False
      show ?thesis
      proof (cases "chunk_key chunk = JStr ''''")
        case True
        with k(2) nid show ?thesis by (simp add: first_idless_def)
      next
        case False
        then have "?k \<noteq> JStr ''''" by (simp add: hash_norm_str)
        with k(2) nid that False show ?thesis by (auto simp: first_idless_def)
      qed
    qed
    moreover have "filter idless (chunk # kept) = []" if "JStr '''' \<in> seen"
    proof -
      from that False have "?k \<noteq> JStr ''''" by auto
      then have "chunk_key chunk \<noteq> JStr ''''" by (simp add: hash_norm_str)
      then have "\<not> idless chunk" using idless_key by blast
      with k(2) that show ?thesis by simp
    qed
    ultimately show ?thesis using k(1) by (intro exI [of _ "chunk # kept"]) auto
  qed
qed

text \<open>The deduplication fails only on an unhashable identifier.\<close>

lemma dedup_loop_hashable:
  "\<forall>c \<in> set chunks. hashable (chunk_key c) \<Longrightarrow> \<exists>out. dedup_loop chunks seen unique = Inr out"
  by (induction chunks arbitrary: seen unique) (auto simp: Let_def)

lemma chunk_examples [simp]:
  "idless (chunk_with_content t)" "\<not> idless (chunk_with_id i)"
  "chunk_key (chunk_with_content t) = JStr ''''" "chunk_key (chunk_with_id i) = JStr i"
  by (simp_all add: idless_def chunk_with_content_def chunk_with_id_def chunk_key_def dict_get_def)

text \<open>
  C10, as stated: of the chunks with neither a \<open>chunk_id\<close> nor an \<open>id\<close> key the first
  one is kept. When an earlier chunk carries the empty string as its \<open>chunk_id\<close>, the
  key \<open>""\<close> is taken already, and the first chunk without identifier is discarded as
  well.
\<close>

theorem deduplicate_first_idless_dropped:
  "deduplicate_chunks [chunk_with_id '''', chunk_with_content ''first''] =
     Inr [chunk_with_id ''''] \<and>
   idless (chunk_with_content ''first'') \<and>
   \<not> idless (chunk_with_id '''') \<and>
   filter idless [chunk_with_id ''''] = []"
  by (simp add: deduplicate_chunks_def Let_def)

text \<open>
  C10, amended. A chunk with neither a \<open>chunk_id\<close> nor an \<open>id\<close> key has the key \<open>""\<close>.
  Of all such chunks the deduplicated list holds the first one of the input when no
  chunk before it has the key \<open>""\<close>, and none of them otherwise; every later one is
  discarded, whatever it contains. The deduplication returns whenever every identifier
  is hashable.
\<close>

theorem deduplicate_idless:
  "(idless c \<longrightarrow> chunk_key c = JStr '''') \<and>
   ((\<forall>c \<in> set chunks. hashable (chunk_key c)) \<longrightarrow>
      (\<exists>unique. deduplicate_chunks chunks = Inr unique)) \<and>
   (deduplicate_chunks chunks = Inr unique \<longrightarrow>
      filter idless unique =
        (if \<exists>c \<in> set (takeWhile (\<lambda>c. \<not> idless c) chunks). chunk_key c = JStr '''' then []
         else take 1 (filter idless chunks)))"
proof -
  have "filter idless unique = first_idless chunks" if "deduplicate_chunks chunks = Inr unique"
    using dedup_loop_idless [of chunks "{}" "[]" unique] that
    by (auto simp: deduplicate_chunks_def)
  moreover have "\<exists>unique. deduplicate_chunks chunks = Inr unique"
    if "\<forall>c \<in> set chunks. hashable (chunk_key c)"
    using dedup_loop_hashable [OF that] by (simp add: deduplicate_chunks_def)
  ultimately show ?thesis
    using idless_key unfolding first_idless_def by blast
qed

theorem deduplicate_idless_witness:
  "deduplicate_chunks
     [chunk_with_id ''a'', chunk_with_content ''first'', chunk_with_id ''b'',
      chunk_with_content ''second'', chunk_with_id ''a'', chunk_with_content ''third'']
   = Inr [chunk_with_id ''a'', chunk_with_content ''first'', chunk_with_id ''b''] \<and>
   filter idless [chunk_with_id ''a'', chunk_with_content ''first'', chunk_with_id ''b'']
   = [chunk_with_content ''first''] \<and>
   chunk_key (chunk_with_content ''second'') = JStr ''''"
proof -
  let ?chunks = "[chunk_with_id ''a'', chunk_with_content ''first'', chunk_with_id ''b'',
      chunk_with_content ''second'', chunk_with_id ''a'', chunk_with_content ''third'']"
  have d: "deduplicate_chunks ?chunks
   = Inr [chunk_with_id ''a'', chunk_with_content ''first'', chunk_with_id ''b'']"
    by (simp add: deduplicate_chunks_def Let_def)
  from deduplicate_idless [of "chunk_with_content ''second''" ?chunks
      "[chunk_with_id ''a'', chunk_with_content ''first'', chunk_with_id ''b'']"] d
  show ?thesis by simp
qed

subsection \<open>Reranking\<close>

lemma py_eq_refl: "py_eq v v"
proof (induction v)
  case (JList xs)
  then show ?case by (simp add: list_all2_same)
next
  case (JDict kvs)
  have "list_ex (\<lambda>(k', y). k' = k \<and> py_eq x y) kvs" if "(k, x) \<in> set kvs" for k x
  proof -
    from that JDict have "py_eq x x" by (auto simp: snds.simps)
    with that show ?thesis by (auto simp: list_ex_iff)
  qed
  moreover have "list_ex (\<lambda>(k, x). k' = k \<and> py_eq x y) kvs" if "(k', y) \<in> set kvs" for k' y
  proof -
    from that JDict have "py_eq y y" by (auto simp: snds.simps)
    with that show ?thesis by (auto simp: list_ex_iff)
  qed
  ultimately show ?case by (auto simp: list_all_iff)
qed simp_all

lemma chunk_eq_refl: "chunk_eq c c"
  by (simp only: chunk_eq_def py_eq_refl)

lemma set_select_ranked:
  "set (select_ranked chunks ranking reranked) \<subseteq> set reranked \<union> set chunks"
proof (induction chunks ranking reranked rule: select_ranked.induct)
  case (1 chunks reranked)
  then show ?case by simp
next
  case (2 chunks idx rest reranked)
  show ?case
  proof (cases "0 \<le> idx \<and> idx < int (length chunks)")
    case True
    then have "chunks ! nat idx \<in> set chunks" by (intro nth_mem) linarith
    with 2 True show ?thesis by auto
  next
    case False
    with 2 show ?thesis by auto
  qed
qed

lemma set_add_missing:
  "set reranked \<subseteq> set (add_missing chunks reranked) \<and>
   set (add_missing chunks reranked) \<subseteq> set reranked \<union> set chunks \<and>
   (\<forall>c \<in> set chunks. \<exists>r \<in> set (add_missing chunks reranked). chunk_eq r c)"
proof (induction chunks reranked rule: add_missing.induct)
  case (1 reranked)
  then show ?case by simp
next
  case (2 chunk rest reranked)
  show ?case
  proof (cases "list_ex (\<lambda>r. chunk_eq r chunk) reranked")
    case True
    then obtain r where "r \<in> set reranked" "chunk_eq r chunk" by (auto simp: list_ex_iff)
    with 2 True show ?thesis by auto
  next
    case False
    with 2 have IH: "set (reranked @ [chunk]) \<subseteq> set (add_missing rest (reranked @ [chunk]))"
      "set (add_missing rest (reranked @ [chunk])) \<subseteq> set (reranked @ [chunk]) \<union> set rest"
      "\<forall>c \<in> set rest. \<exists>r \<in> set (add_missing rest (reranked @ [chunk])). chunk_eq r c"
      by simp_all
    from IH(1) have "chunk \<in> set (add_missing rest (reranked @ [chunk]))" by auto
    with chunk_eq_refl have "\<exists>r \<in> set (add_missing rest (reranked @ [chunk])). chunk_eq r chunk"
      by blast
    with IH False show ?thesis by auto
  qed
qed

text \<open>
  Whatever the model answers, a reranked list holds only input chunks, and for every
  input chunk one that equals it under \<open>==\<close>; this much of the permutation property
  holds.
\<close>

lemma rerank_chunks_covers:
  assumes "rerank_chunks llm chunks = Inr out"
  shows "set out \<subseteq> set chunks \<and> (\<forall>c \<in> set chunks. \<exists>r \<in> set out. chunk_eq r c)"
proof -
  have same: "\<forall>c \<in> set chunks. \<exists>r \<in> set chunks. chunk_eq r c"
    using chunk_eq_refl by blast
  have sel: "set (add_missing chunks (select_ranked chunks ranking [])) \<subseteq> set chunks \<and>
     (\<forall>c \<in> set chunks. \<exists>r \<in> set (add_missing chunks (select_ranked chunks ranking [])).
        chunk_eq r c)" for ranking
    using set_add_missing [of "select_ranked chunks ranking []" chunks]
      set_select_ranked [of chunks ranking "[]"] by auto
  from assms same sel show ?thesis
    by (auto simp: rerank_chunks_def split: if_splits sum.splits option.splits)
qed

lemma rerank_chunks_failure:
  assumes "\<forall>c \<in> set chunks. content_sliceable c"
  shows "rerank_chunks (Inl e) chunks = Inr chunks" "rerank_chunks (Inr None) chunks = Inr chunks"
    "parse_ranking response = Inl e' \<Longrightarrow> rerank_chunks (Inr (Some response)) chunks = Inr chunks"
  using assms by (auto simp: rerank_chunks_def list_ex_iff)

lemma parse_ranking_repeated: "parse_ranking ''0,0,1,2,3,4,5'' = Inr [0, 0, 1, 2, 3, 4, 5]"
  by code_simp

text \<open>
  C2. The answer \<open>0,0,1,2,3,4,5\<close> for six chunks names index 0 twice. Both are in
  range, so the first chunk is appended twice, and the reranked list has seven
  entries: the first chunk appears twice, not exactly once.
\<close>

theorem rerank_chunks_repeated_index:
  "rerank_chunks (Inr (Some ''0,0,1,2,3,4,5'')) six_chunks = Inr (hd six_chunks # six_chunks) \<and>
   length (hd six_chunks # six_chunks) = 7 \<and>
   count_list (hd six_chunks # six_chunks) (chunk_with_id ''c0'') = 2"
  by (simp add: rerank_chunks_def rerank_top_k_def six_chunks_def parse_ranking_repeated
      chunk_with_id_def chunk_eq_def content_sliceable_def dict_get_def)

section \<open>Properties of the chunker\<close>

declare recursive_split.simps [simp del]

text \<open>Neither function raises, as long as the separator list is not empty.\<close>

lemma split_returns:
  shows "separators \<noteq> Some [] \<Longrightarrow> \<exists>out. recursive_split P t separators = Inr out"
    and "\<exists>out. split_loop P separator new_separators splits current_chunk chunks = Inr out"
proof (induction P t separators and P separator new_separators splits current_chunk chunks
    rule: recursive_split_split_loop.induct)
  case (1 P t separators)
  let ?S = "case separators of None \<Rightarrow> default_separators | Some s \<Rightarrow> s"
  from "1.prems" have "?S \<noteq> []"
    by (cases separators) (simp_all add: default_separators_def)
  then obtain s rest where S: "?S = s # rest" by (cases ?S) auto
  from "1.IH" [OF refl S refl refl] S show ?case
    by (simp add: recursive_split.simps)
next
  case (2 P separator new_separators current_chunk chunks)
  show ?case by simp
next
  case (3 P separator new_separators split splits current_chunk chunks)
  let ?x = "if separator \<noteq> [] then split @ separator else split"
  let ?xa = "if min_chunk_size P \<le> int (length current_chunk)
             then chunks @ [py_strip current_chunk] else chunks"
  show ?case
  proof (cases "chunk_size P < int (length current_chunk) + int (length ?x)")
    case over: True
    show ?thesis
    proof (cases "chunk_size P < int (length ?x) \<and> new_separators \<noteq> []")
      case True
      from "3.IH"(1) [OF refl over refl True] True
      obtain b where b: "recursive_split P ?x (Some new_separators) = Inr b"
        by auto
      from "3.IH"(2) [OF refl over refl True b] over True b show ?thesis
        by (simp add: Let_def)
    next
      case False
      from "3.IH"(3) [OF refl over refl False refl] over False show ?thesis
        by (auto simp: Let_def)
    qed
  next
    case False
    from "3.IH"(4) [OF refl False] False show ?thesis
      by (simp add: Let_def)
  qed
qed

text \<open>
  The call relation of the two functions, as the definition generates it:
  \<open>recursive_split_split_loop_rel x y\<close> holds when the call \<open>y\<close> makes the call \<open>x\<close>
  directly, \<open>Inl\<close> marking a call of \<open>recursive_split\<close> and \<open>Inr\<close> one of the loop.
  \<open>sep_level\<close> is the number of separators a call still has: those of its list for
  \<open>recursive_split\<close>, those left for the recursion for the loop.
\<close>

lemma sep_level_step:
  assumes "recursive_split_split_loop_rel x y"
  shows "sep_level x \<le> sep_level y \<and> (isl y \<longrightarrow> sep_level x < sep_level y) \<and>
         (isl x \<longrightarrow> 0 < sep_level x)"
  using assms
proof (cases rule: recursive_split_split_loop_rel.cases)
  case (1 P t separators S s rest new_separators splits)
  then show ?thesis
    by (auto simp: sep_level_def split: if_splits dest!: arg_cong [where f = length])
qed (auto simp: sep_level_def)

lemma sep_level_calls:
  assumes "tranclp recursive_split_split_loop_rel x y"
  shows "sep_level x \<le> sep_level y \<and> (isl y \<longrightarrow> sep_level x < sep_level y) \<and>
         (isl x \<longrightarrow> 0 < sep_level x)"
  using assms
proof (induction rule: tranclp_induct)
  case (base y)
  then show ?case by (rule sep_level_step)
next
  case (step y z)
  from sep_level_step [OF step.hyps(2)] step.IH show ?case by auto
qed

lemma split_dom_all: "All recursive_split_split_loop_dom"
  by (relation "measures
        [\<lambda>x. case x of
                Inl (P, text, separators) \<Rightarrow>
                  length (case separators of None \<Rightarrow> default_separators | Some s \<Rightarrow> s)
              | Inr (P, separator, new_separators, splits, current_chunk, chunks) \<Rightarrow>
                  length new_separators,
         \<lambda>x. case x of
                Inl (P, text, separators) \<Rightarrow> 0
              | Inr (P, separator, new_separators, splits, current_chunk, chunks) \<Rightarrow>
                  Suc (length splits)]")
     (auto split: if_splits dest!: arg_cong [where f = length])

text \<open>
  C8. The recursion of \<open>_recursive_split\<close> terminates on every input, and with a
  non-empty separator list (the default list when none is given) it returns a list of
  chunks. Every call of \<open>_recursive_split\<close> made, directly or through further calls,
  from a call with the list \<open>separators\<close> has a strictly shorter, non-empty separator
  list. At the last level, the list \<open>[""]\<close>, the text is split into its characters
  and no call of \<open>_recursive_split\<close> follows.
\<close>

theorem recursive_split_terminates:
  "recursive_split_split_loop_dom (Inl (P, t, separators)) \<and>
   (separators \<noteq> Some [] \<longrightarrow> (\<exists>chunks. recursive_split P t separators = Inr chunks)) \<and>
   (tranclp recursive_split_split_loop_rel (Inl (P', t', separators')) (Inl (P, t, separators)) \<longrightarrow>
      length (case separators' of None \<Rightarrow> default_separators | Some s \<Rightarrow> s)
        < length (case separators of None \<Rightarrow> default_separators | Some s \<Rightarrow> s) \<and>
      (case separators' of None \<Rightarrow> default_separators | Some s \<Rightarrow> s) \<noteq> []) \<and>
   \<not> tranclp recursive_split_split_loop_rel (Inl (P', t', separators')) (Inl (P, t, Some [''''])) \<and>
   recursive_split P t (Some ['''']) = split_loop P '''' [] (map (\<lambda>c. [c]) t) [] []"
proof -
  have dom: "recursive_split_split_loop_dom (Inl (P, t, separators))"
    using split_dom_all by blast
  have ret: "separators \<noteq> Some [] \<longrightarrow> (\<exists>chunks. recursive_split P t separators = Inr chunks)"
    using split_returns(1) by blast
  have calls: "length (case s' of None \<Rightarrow> default_separators | Some s \<Rightarrow> s)
        < length (case s0 of None \<Rightarrow> default_separators | Some s \<Rightarrow> s) \<and>
      (case s' of None \<Rightarrow> default_separators | Some s \<Rightarrow> s) \<noteq> []"
    if "tranclp recursive_split_split_loop_rel (Inl (P', t', s')) (Inl (P, t, s0))" for s' s0
    using sep_level_calls [OF that] by (simp add: sep_level_def)
  have last: "\<not> tranclp recursive_split_split_loop_rel (Inl (P', t', separators')) (Inl (P, t, Some ['''']))"
  proof
    assume "tranclp recursive_split_split_loop_rel (Inl (P', t', separators')) (Inl (P, t, Some ['''']))"
    from calls [OF this] show False by simp
  qed
  have chars: "recursive_split P t (Some ['''']) = split_loop P '''' [] (map (\<lambda>c. [c]) t) [] []"
    by (simp add: recursive_split.simps)
  from dom ret calls last chars show ?thesis by blast
qed

lemma example_split: "py_split [CHR 0x0A, CHR 0x0A] ''abcdefghijk'' = [''abcdefghijk'']"
  by code_simp

theorem recursive_split_terminates_witness:
  "tranclp recursive_split_split_loop_rel
     (Inl (small_processor, ''abcdefghijk'' @ [CHR 0x0A, CHR 0x0A], Some (tl default_separators)))
     (Inl (small_processor, ''abcdefghijk'', None)) \<and>
   length (tl default_separators) < length default_separators \<and>
   (\<exists>chunks. recursive_split small_processor ''abcdefghijk'' None = Inr chunks)"
proof -
  let ?nl2 = "[CHR 0x0A, CHR 0x0A]"
  let ?loop = "Inr (small_processor, ?nl2, tl default_separators, [''abcdefghijk''], [], [])"
  have 1: "recursive_split_split_loop_rel ?loop (Inl (small_processor, ''abcdefghijk'', None))"
    by (rule recursive_split_split_loop_rel.intros(1)
          [where x = default_separators and ?x21.0 = ?nl2 and ?x22.0 = "tl default_separators"])
       (simp_all add: default_separators_def example_split)
  have 2: "recursive_split_split_loop_rel
     (Inl (small_processor, ''abcdefghijk'' @ ?nl2, Some (tl default_separators))) ?loop"
    by (rule recursive_split_split_loop_rel.intros(2)) 
       (simp_all add: default_separators_def small_processor_def)
  from 1 2 have c: "tranclp recursive_split_split_loop_rel
     (Inl (small_processor, ''abcdefghijk'' @ ?nl2, Some (tl default_separators)))
     (Inl (small_processor, ''abcdefghijk'', None))"
    by (rule tranclp.intros(2) [OF tranclp.intros(1), rotated])
  from recursive_split_terminates
         [of small_processor "''abcdefghijk''" None small_processor
             "''abcdefghijk'' @ ?nl2" "Some (tl default_separators)"] c
  show ?thesis by simp
qed


subsection \<open>The size of the chunks\<close>

declare split_buffers.simps [simp del]

lemma length_py_strip: "length (py_strip s) \<le> length s"
proof -
  have "length (dropWhile is_space (rev (dropWhile is_space s))) \<le> length (dropWhile is_space s)"
    using length_dropWhile_le [of is_space "rev (dropWhile is_space s)"] by simp
  also have "\<dots> \<le> length s" by (rule length_dropWhile_le)
  finally show ?thesis by (simp add: py_strip_def)
qed

lemma length_overlap:
  assumes "0 < co"
  shows "int (length (if co < int (length cur) then py_slice_from cur (- co) else cur)) \<le> co"
  using assms by (auto simp: py_slice_from_def)

lemma kept_append: "kept P (xs @ ys) = kept P xs @ kept P ys"
  by (simp add: kept_def)

lemma kept_single:
  "kept P [b] = (if min_chunk_size P \<le> int (length b) then [py_strip b] else [])"
  by (simp add: kept_def)

text \<open>
  The chunks returned are the kept buffers: on every input, the source's function
  returns what \<open>kept\<close> makes of the recorded buffers, or raises as the recording does.
\<close>

lemma split_kept_buffers:
  shows "recursive_split P t separators = map_sum id (kept P) (split_buffers P t separators)"
    and "split_loop P separator new_separators splits current_chunk (kept P buffers) =
           map_sum id (kept P)
             (buffer_loop P separator new_separators splits current_chunk buffers)"
proof (induction P t separators and P separator new_separators splits current_chunk buffers
    rule: split_buffers_buffer_loop.induct)
  case (1 P t separators)
  let ?S = "case separators of None \<Rightarrow> default_separators | Some s \<Rightarrow> s"
  show ?case
  proof (cases ?S)
    case Nil
    then show ?thesis by (simp add: recursive_split.simps split_buffers.simps)
  next
    case (Cons s rest)
    from "1.IH" [OF refl Cons refl refl] Cons show ?thesis
      by (simp add: recursive_split.simps split_buffers.simps kept_def)
  qed
next
  case (2 P separator new_separators current_chunk buffers)
  show ?case by (simp add: kept_append kept_single)
next
  case (3 P separator new_separators split splits current_chunk buffers)
  let ?x = "if separator \<noteq> [] then split @ separator else split"
  let ?xa = "buffers @ [current_chunk]"
  have flush: "(if min_chunk_size P \<le> int (length current_chunk)
                then kept P buffers @ [py_strip current_chunk] else kept P buffers) = kept P ?xa"
    by (simp add: kept_append kept_single)
  show ?case
  proof (cases "chunk_size P < int (length current_chunk) + int (length ?x)")
    case over: True
    show ?thesis
    proof (cases "chunk_size P < int (length ?x) \<and> new_separators \<noteq> []")
      case True
      note rec = "3.IH"(1) [OF refl over refl True]
      show ?thesis
      proof (cases "split_buffers P ?x (Some new_separators)")
        case (Inl e)
        with rec have "recursive_split P ?x (Some new_separators) = Inl e" by simp
        with Inl over True show ?thesis by (simp add: Let_def)
      next
        case (Inr b)
        with rec have r: "recursive_split P ?x (Some new_separators) = Inr (kept P b)" by simp
        have app: "kept P ?xa @ kept P b = kept P (?xa @ b)"
          by (simp only: kept_append)
        have "split_loop P separator new_separators splits [] (kept P ?xa @ kept P b) =
              map_sum id (kept P) (buffer_loop P separator new_separators splits [] (?xa @ b))"
          unfolding app by (rule "3.IH"(2) [OF refl over refl True Inr])
        with Inr r over True show ?thesis
          by (simp add: Let_def flush id_def del: append_assoc)
      qed
    next
      case False
      from "3.IH"(3) [OF refl over refl False refl] over False flush show ?thesis
        by (auto simp: Let_def)
    qed
  next
    case False
    from "3.IH"(4) [OF refl False] False show ?thesis
      by (simp add: Let_def)
  qed
qed

text \<open>With a positive overlap no buffer is longer than \<open>chunk_size + chunk_overlap\<close>.\<close>

lemma buffers_bounded:
  shows "0 < chunk_size P \<Longrightarrow> 0 < chunk_overlap P \<Longrightarrow>
         (case separators of None \<Rightarrow> default_separators | Some s \<Rightarrow> s) = S \<Longrightarrow>
         S \<noteq> [] \<Longrightarrow> last S = [] \<Longrightarrow>
         split_buffers P t separators = Inr out \<Longrightarrow>
         \<forall>b \<in> set out. int (length b) \<le> chunk_size P + chunk_overlap P"
    and "0 < chunk_size P \<Longrightarrow> 0 < chunk_overlap P \<Longrightarrow>
         (if new_separators = [] then separator = [] \<and> (\<forall>s \<in> set splits. length s \<le> 1)
          else last new_separators = []) \<Longrightarrow>
         int (length current_chunk) \<le> chunk_size P + chunk_overlap P \<Longrightarrow>
         \<forall>b \<in> set buffers. int (length b) \<le> chunk_size P + chunk_overlap P \<Longrightarrow>
         buffer_loop P separator new_separators splits current_chunk buffers = Inr out \<Longrightarrow>
         \<forall>b \<in> set out. int (length b) \<le> chunk_size P + chunk_overlap P"
proof (induction P t separators and P separator new_separators splits current_chunk buffers
    arbitrary: S out and out rule: split_buffers_buffer_loop.induct)
  case (1 P t separators)
  from "1.prems"(4) obtain s rest where S: "S = s # rest" by (cases S) auto
  have res: "(case separators of None \<Rightarrow> default_separators | Some s \<Rightarrow> s) = s # rest"
    using "1.prems"(3) S by simp
  let ?splits = "if s \<noteq> [] then py_split s t else map (\<lambda>c. [c]) t"
  have new: "(if 1 < length (case separators of None \<Rightarrow> default_separators | Some s \<Rightarrow> s)
              then rest else []) = rest"
    using res by (cases rest) auto
  have ifrest: "(if rest \<noteq> [] then rest else []) = rest"
    by simp
  have loop: "buffer_loop P s rest ?splits [] [] = Inr out"
    using "1.prems"(6) res by (simp add: split_buffers.simps ifrest del: buffer_loop.simps)
  have lvl: "if rest = [] then s = [] \<and> (\<forall>x \<in> set ?splits. length x \<le> 1) else last rest = []"
    using "1.prems"(5) S by auto
  from "1.IH" [OF refl res refl refl, unfolded new, OF "1.prems"(1,2) lvl _ _ loop]
    "1.prems"(1,2)
  show ?case by simp
next
  case (2 P separator new_separators current_chunk buffers)
  then show ?case by auto
next
  case (3 P separator new_separators split splits current_chunk buffers)
  let ?x = "if separator \<noteq> [] then split @ separator else split"
  let ?xa = "buffers @ [current_chunk]"
  note cs = "3.prems"(1) and co = "3.prems"(2) and lvl = "3.prems"(3)
    and cur = "3.prems"(4) and ok = "3.prems"(5) and res = "3.prems"(6)
  have lvl': "if new_separators = [] then separator = [] \<and> (\<forall>s \<in> set splits. length s \<le> 1)
              else last new_separators = []"
    using lvl by (auto split: if_splits)
  have okxa: "\<forall>b \<in> set ?xa. int (length b) \<le> chunk_size P + chunk_overlap P"
    using ok cur by simp
  show ?case
  proof (cases "chunk_size P < int (length current_chunk) + int (length ?x)")
    case over: True
    show ?thesis
    proof (cases "chunk_size P < int (length ?x) \<and> new_separators \<noteq> []")
      case True
      from res over True obtain b where b: "split_buffers P ?x (Some new_separators) = Inr b"
        by (cases "split_buffers P ?x (Some new_separators)") (auto simp: Let_def)
      have "\<forall>y \<in> set b. int (length y) \<le> chunk_size P + chunk_overlap P"
        using "3.IH"(1) [OF refl over refl True cs co _ _ _ b, of new_separators] True lvl
        by (auto split: if_splits)
      with okxa have okb: "\<forall>y \<in> set (?xa @ b). int (length y) \<le> chunk_size P + chunk_overlap P"
        by auto
      have loop: "buffer_loop P separator new_separators splits [] (?xa @ b) = Inr out"
        using res over True b by (simp add: Let_def)
      from "3.IH"(2) [OF refl over refl True b cs co lvl' _ okb loop] cs co
      show ?thesis by simp
    next
      case False
      let ?xb = "if chunk_overlap P < int (length current_chunk)
                 then py_slice_from current_chunk (- chunk_overlap P) else current_chunk"
      have px: "int (length ?x) \<le> chunk_size P"
      proof (cases "new_separators = []")
        case True
        with lvl have "separator = []" "length split \<le> 1" by auto
        with cs show ?thesis by simp
      next
        case False
        with \<open>\<not> (chunk_size P < int (length ?x) \<and> new_separators \<noteq> [])\<close>
        show ?thesis by simp
      qed
      have "int (length ?xb) \<le> chunk_overlap P"
        using co by (rule length_overlap)
      with px have len: "int (length (?xb @ ?x)) \<le> chunk_size P + chunk_overlap P"
        by simp
      have loop: "buffer_loop P separator new_separators splits (?xb @ ?x) ?xa = Inr out"
        using res over False by (auto simp: Let_def)
      from "3.IH"(3) [OF refl over refl False refl cs co lvl' len okxa loop]
      show ?thesis .
    qed
  next
    case False
    then have len: "int (length (current_chunk @ ?x)) \<le> chunk_size P + chunk_overlap P"
      using co by simp
    have loop: "buffer_loop P separator new_separators splits (current_chunk @ ?x) buffers = Inr out"
      using res False by (simp add: Let_def)
    from "3.IH"(4) [OF refl False cs co lvl' len ok loop]
    show ?thesis .
  qed
qed

text \<open>
  With \<open>chunk_overlap = 0\<close> the slice \<open>current_chunk[-0:]\<close> is the whole buffer, not an
  empty overlap, so the bound above needs a positive overlap.
\<close>

lemma overlap_zero: "py_slice_from current_chunk (- 0) = current_chunk"
  by (simp add: py_slice_from_def)

lemma small_split_value:
  "recursive_split small_processor ''aaaa bbbb cccccccc dd'' None =
     Inr [''aaaa bbbb'', ''bbbb cccccccc'', ''cccc dd'' @ [CHR 0x0A] @ ''.'',
          ''dd'' @ [CHR 0x0A] @ ''.'', '''']"
  by code_simp

text \<open>
  C1, as stated: every returned string is at most \<open>chunk_size\<close> and at least
  \<open>min_chunk_size\<close> characters long. With \<open>chunk_size = 10\<close>, \<open>chunk_overlap = 5\<close> and
  \<open>min_chunk_size = 2\<close> the text \<open>aaaa bbbb cccccccc dd\<close>, whose words all fit into a
  chunk, gives the chunk \<open>bbbb cccccccc\<close> of 13 characters (the overlap \<open>bbbb \<close> of the
  previous buffer, then the next piece) and an empty chunk (the buffer of two
  newlines passes the minimum and is stripped afterwards).
\<close>

theorem recursive_split_exceeds_bounds:
  "recursive_split small_processor ''aaaa bbbb cccccccc dd'' None =
     Inr [''aaaa bbbb'', ''bbbb cccccccc'', ''cccc dd'' @ [CHR 0x0A] @ ''.'',
          ''dd'' @ [CHR 0x0A] @ ''.'', ''''] \<and>
   chunk_size small_processor < int (length ''bbbb cccccccc'') \<and>
   int (length '''') < min_chunk_size small_processor"
  using small_split_value by (simp add: small_processor_def)

text \<open>
  C1, amended. For \<open>chunk_size > 0\<close> and \<open>chunk_overlap > 0\<close> the split of a text with
  the default separators returns, in their order, exactly the accumulated buffers
  that are at least \<open>min_chunk_size\<close> characters long, each stripped; every shorter
  buffer is dropped. No accumulated buffer is longer than
  \<open>chunk_size + chunk_overlap\<close>, so no returned chunk is.
\<close>

theorem recursive_split_chunk_bounds:
  assumes "0 < chunk_size P" and "0 < chunk_overlap P"
  shows "\<exists>buffers.
           split_buffers P t None = Inr buffers \<and>
           recursive_split P t None =
             Inr (map py_strip (filter (\<lambda>b. min_chunk_size P \<le> int (length b)) buffers)) \<and>
           (\<forall>b \<in> set buffers. int (length b) \<le> chunk_size P + chunk_overlap P) \<and>
           (\<forall>c \<in> set (map py_strip (filter (\<lambda>b. min_chunk_size P \<le> int (length b)) buffers)).
              int (length c) \<le> chunk_size P + chunk_overlap P)"
proof -
  from split_returns(1) [of None P t]
  obtain chunks where r: "recursive_split P t None = Inr chunks" by auto
  with split_kept_buffers(1) [of P t None]
  obtain buffers where b: "split_buffers P t None = Inr buffers"
    by (cases "split_buffers P t None") auto
  with split_kept_buffers(1) [of P t None]
  have k: "recursive_split P t None =
             Inr (map py_strip (filter (\<lambda>b. min_chunk_size P \<le> int (length b)) buffers))"
    by (simp add: kept_def)
  have bound: "\<forall>b \<in> set buffers. int (length b) \<le> chunk_size P + chunk_overlap P"
    using buffers_bounded(1) [OF assms _ _ _ b, of default_separators]
    by (simp add: default_separators_def)
  have "int (length (py_strip b)) \<le> chunk_size P + chunk_overlap P" if "b \<in> set buffers" for b
    using bound that length_py_strip [of b] by fastforce
  with b k bound show ?thesis by auto
qed

lemma small_buffers_value:
  "split_buffers small_processor ''aaaa bbbb cccccccc dd'' None =
     Inr ['''', '''', '''', ''aaaa bbbb '', ''bbbb cccccccc '',
          ''cccc dd'' @ [CHR 0x0A] @ ''. '', ''dd'' @ [CHR 0x0A] @ ''.  '', '''',
          [CHR 0x0A, CHR 0x0A], '''']"
  by code_simp

theorem recursive_split_chunk_bounds_witness:
  "split_buffers small_processor ''aaaa bbbb cccccccc dd'' None =
     Inr ['''', '''', '''', ''aaaa bbbb '', ''bbbb cccccccc '',
          ''cccc dd'' @ [CHR 0x0A] @ ''. '', ''dd'' @ [CHR 0x0A] @ ''.  '', '''',
          [CHR 0x0A, CHR 0x0A], ''''] \<and>
   recursive_split small_processor ''aaaa bbbb cccccccc dd'' None =
     Inr (map py_strip [''aaaa bbbb '', ''bbbb cccccccc '',
          ''cccc dd'' @ [CHR 0x0A] @ ''. '', ''dd'' @ [CHR 0x0A] @ ''.  '',
          [CHR 0x0A, CHR 0x0A]]) \<and>
   list_all (\<lambda>b. int (length b) \<le> 15)
     ['''', '''', '''', ''aaaa bbbb '', ''bbbb cccccccc '',
      ''cccc dd'' @ [CHR 0x0A] @ ''. '', ''dd'' @ [CHR 0x0A] @ ''.  '', '''',
      [CHR 0x0A, CHR 0x0A], '''']"
  using recursive_split_chunk_bounds [of small_processor "''aaaa bbbb cccccccc dd''"]
    small_buffers_value
  by (simp add: small_processor_def)

end
